theory Spec2Isabelle
  imports Complex_Main "HOL-Library.Multiset"
begin

section \<open>Values of the log-line parser\<close>

text \<open>
  The parser of \<^verbatim>\<open>neurons/parsing.py\<close> takes a Python \<^verbatim>\<open>str\<close> and returns a dictionary
  with seven fixed keys. Text is modelled as \<^typ>\<open>string\<close>; its characters are the code
  points below 256, where the class \<^verbatim>\<open>\d\<close> of Python's \<^verbatim>\<open>re\<close> is exactly
  \<^verbatim>\<open>0\<close> to \<^verbatim>\<open>9\<close>.
\<close>

record datetime =
  year :: nat
  month :: nat
  day :: nat
  hour :: nat
  minute :: nat
  second :: nat
  microsecond :: nat
  utcoffset :: "int option"  \<comment> \<open>seconds east of UTC; \<open>None\<close> for a naive value\<close>

datatype pyval = PNone | PStr string | PInt int | PDate datetime

datatype exn = AttributeError | ValueError | ParserError | OverflowError

definition INVALID :: pyval where
  "INVALID = PStr ''INVALID''"

definition METHODS :: "string list" where
  "METHODS = [''GET'', ''POST'', ''PUT'', ''DELETE'']"

record ParsedWebserverLogLine =
  ip :: pyval  timestamp :: pyval
  \<comment> \<open>the request triple\<close>  method' :: pyval  url :: pyval  protocol :: pyval
  status_code :: pyval  bytes_sent :: pyval

section \<open>Regular expressions as backtracking matchers\<close>

text \<open>
  A pattern is a function on the text that is left, taking the continuation that
  matches the rest of the pattern; \<open>None\<close> is a failed attempt, after which the
  caller tries its next alternative, as the backtracking engine of \<^verbatim>\<open>re\<close> does.
\<close>

type_synonym 'r cont = "string \<Rightarrow> 'r option"

definition is_digit :: "char \<Rightarrow> bool" where
  "is_digit c = (c \<in> set ''0123456789'')"

definition is_dot :: "char \<Rightarrow> bool" where
  "is_dot c = (c = CHR ''.'')"

definition digit_or_dot :: "char \<Rightarrow> bool" where
  "digit_or_dot c = (is_digit c \<or> is_dot c)"

definition not_newline :: "char \<Rightarrow> bool" where
  \<comment> \<open>the pattern \<^verbatim>\<open>.\<close> without DOTALL\<close>
  "not_newline c = (c \<noteq> CHR 0x0A)"

definition is_space :: "char \<Rightarrow> bool" where
  \<comment> \<open>\<^verbatim>\<open>\s\<close> on str patterns: the code points below 256 with \<^verbatim>\<open>str.isspace\<close>\<close>
  "is_space c = (c \<in> set [CHR 0x09, CHR 0x0A, CHR 0x0B, CHR 0x0C, CHR 0x0D,
                            CHR 0x1C, CHR 0x1D, CHR 0x1E, CHR 0x1F, CHR 0x20,
                            CHR 0x85, CHR 0xA0])"

definition non_space :: "char \<Rightarrow> bool" where
  "non_space c = (\<not> is_space c)"

definition one :: "(char \<Rightarrow> bool) \<Rightarrow> 'r cont \<Rightarrow> 'r cont" where
  "one P k s = (case s of [] \<Rightarrow> None | c # cs \<Rightarrow> if P c then k cs else None)"

definition lit :: "char \<Rightarrow> 'r cont \<Rightarrow> 'r cont" where
  "lit a k = one (\<lambda>c. c = a) k"

fun lits :: "string \<Rightarrow> 'r cont \<Rightarrow> 'r cont" where
  "lits [] k = k"
| "lits (a # as) k = lit a (lits as k)"

definition orelse :: "'r option \<Rightarrow> 'r option \<Rightarrow> 'r option" where
  "orelse a b = (case a of Some r \<Rightarrow> Some r | None \<Rightarrow> b)"

definition rep13 :: "(char \<Rightarrow> bool) \<Rightarrow> 'r cont \<Rightarrow> 'r cont" where
  \<comment> \<open>\<^verbatim>\<open>x{1,3}\<close>, greedy: three, else two, else one\<close>
  "rep13 P k = one P (\<lambda>s1. orelse (one P (\<lambda>s2. orelse (one P k s2) (k s2)) s1) (k s1))"

definition rep3 :: "(char \<Rightarrow> bool) \<Rightarrow> 'r cont \<Rightarrow> 'r cont" where
  \<comment> \<open>\<^verbatim>\<open>x{3}\<close>\<close>
  "rep3 P k = one P (one P (one P k))"

fun star :: "(char \<Rightarrow> bool) \<Rightarrow> 'r cont \<Rightarrow> 'r cont" where
  \<comment> \<open>\<^verbatim>\<open>x*\<close>, greedy: the longest run first, giving characters back one at a time\<close>
  "star P k [] = k []"
| "star P k (c # cs) = (if P c then orelse (star P k cs) (k (c # cs)) else k (c # cs))"

fun star_lazy :: "(char \<Rightarrow> bool) \<Rightarrow> 'r cont \<Rightarrow> 'r cont" where
  \<comment> \<open>\<^verbatim>\<open>x*?\<close>: the shortest run first\<close>
  "star_lazy P k [] = k []"
| "star_lazy P k (c # cs) = orelse (k (c # cs)) (if P c then star_lazy P k cs else None)"

definition plus :: "(char \<Rightarrow> bool) \<Rightarrow> 'r cont \<Rightarrow> 'r cont" where
  \<comment> \<open>\<^verbatim>\<open>x+\<close>, greedy\<close>
  "plus P k = one P (star P k)"

definition not_ahead :: "(char \<Rightarrow> bool) \<Rightarrow> 'r cont \<Rightarrow> 'r cont" where
  \<comment> \<open>negative lookahead \<^verbatim>\<open>(?!x)\<close> on one character\<close>
  "not_ahead P k s = (case s of [] \<Rightarrow> k [] | c # cs \<Rightarrow> if P c then None else k (c # cs))"

definition not_behind :: "(char \<Rightarrow> bool) \<Rightarrow> char option \<Rightarrow> bool" where
  \<comment> \<open>negative lookbehind \<^verbatim>\<open>(?<!x)\<close> on the character before the position\<close>
  "not_behind P prev = (case prev of None \<Rightarrow> True | Some c \<Rightarrow> \<not> P c)"

definition capture :: "string \<Rightarrow> string \<Rightarrow> string" where
  \<comment> \<open>the text between two positions, given as the texts left at each\<close>
  "capture s r = take (length s - length r) s"

subsection \<open>The five patterns of \<^verbatim>\<open>parse\<close>\<close>

text \<open>
  Each pattern is tried at one position: it gets the character before the position and
  the text from the position on, and returns what \<^verbatim>\<open>parse\<close> reads from the match
  object together with the text after the match.
\<close>

type_synonym 'g pattern = "char option \<Rightarrow> string \<Rightarrow> ('g \<times> string) option"

definition ip_pattern :: "string pattern" where
  \<comment> \<open>\<^verbatim>\<open>\d{1,3}\.\d{1,3}\.\d{1,3}\.\d{1,3}\<close>\<close>
  "ip_pattern prev s =
     rep13 is_digit (lit CHR ''.'' (rep13 is_digit (lit CHR ''.''
       (rep13 is_digit (lit CHR ''.'' (rep13 is_digit
         (\<lambda>r. Some (capture s r, r)))))))) s"

definition timestamp_pattern :: "string pattern" where
  \<comment> \<open>\<^verbatim>\<open>\[(?P<timestamp>.*?)\]\<close>\<close>
  "timestamp_pattern prev s =
     lit CHR ''['' (\<lambda>s1. star_lazy not_newline
       (\<lambda>s2. lit CHR '']'' (\<lambda>r. Some (capture s1 s2, r)) s2) s1) s"

definition request_info_pattern :: "(string \<times> string \<times> string) pattern" where
  \<comment> \<open>\<^verbatim>\<open>"(?P<method>.*) (?P<url>/\S+) (?P<protocol>HTTP/\d\.\d)"\<close>\<close>
  "request_info_pattern prev s =
     lit (CHR 0x22) (\<lambda>s1. star not_newline
       (\<lambda>s2. lit CHR '' '' (\<lambda>s3. lit CHR ''/'' (plus non_space
         (\<lambda>s4. lit CHR '' '' (\<lambda>s5. lits ''HTTP/'' (one is_digit (lit CHR ''.'' (one is_digit
           (\<lambda>s6. lit (CHR 0x22)
              (\<lambda>r. Some ((capture s1 s2, capture s3 s4, capture s5 s6), r)) s6)))) s5) s4)) s3) s2) s1) s"

definition status_code_pattern :: "string pattern" where
  \<comment> \<open>\<^verbatim>\<open>(?<![\d.])\d{3}(?![\d.])\<close>\<close>
  "status_code_pattern prev s =
     (if not_behind digit_or_dot prev
      then rep3 is_digit (not_ahead digit_or_dot (\<lambda>r. Some (capture s r, r))) s
      else None)"

definition bytes_sent_pattern :: "string pattern" where
  \<comment> \<open>\<^verbatim>\<open>\d+\<close>\<close>
  "bytes_sent_pattern prev s = plus is_digit (\<lambda>r. Some (capture s r, r)) s"

subsection \<open>\<^verbatim>\<open>re.search\<close> and \<^verbatim>\<open>re.sub\<close> with \<^verbatim>\<open>count=1\<close>\<close>

fun search_from :: "'g pattern \<Rightarrow> char option \<Rightarrow> string \<Rightarrow> (string \<times> 'g \<times> string) option" where
  \<comment> \<open>the start positions from left to right, the end of the text included; the result
      is the text before the match, the groups and the text after the match\<close>
  "search_from pat prev [] = map_option (Pair []) (pat prev [])"
| "search_from pat prev (c # cs) =
     (case pat prev (c # cs) of
        Some m \<Rightarrow> Some ([], m)
      | None \<Rightarrow> map_option (\<lambda>(pre, m). (c # pre, m)) (search_from pat (Some c) cs))"

definition search :: "'g pattern \<Rightarrow> string \<Rightarrow> (string \<times> 'g \<times> string) option" where
  "search pat s = search_from pat None s"

definition sub_first :: "'g pattern \<Rightarrow> string \<Rightarrow> string" where
  \<comment> \<open>\<^verbatim>\<open>re.sub(pattern, '', s, count=1)\<close>: the leftmost match is cut out\<close>
  "sub_first pat s = (case search pat s of None \<Rightarrow> s | Some (pre, g, rest) \<Rightarrow> pre @ rest)"

section \<open>\<^verbatim>\<open>parse\<close>\<close>

record extracted_info =
  ip_match :: "string option"
  timestamp_match :: "string option"
  request_info_match :: "(string \<times> string \<times> string) option"
  status_code_match :: "string option"
  bytes_sent_match :: "string option"

definition extract_step :: "'g pattern \<Rightarrow> string \<Rightarrow> 'g option \<times> string" where
  \<comment> \<open>one turn of the loop: the match that is kept, and the text that remains\<close>
  "extract_step pat remaining_logline =
     (case search pat remaining_logline of
        None \<Rightarrow> (None, remaining_logline)
      | Some (pre, g, rest) \<Rightarrow> (Some g, sub_first pat remaining_logline))"

definition extract_all :: "string \<Rightarrow> extracted_info" where
  "extract_all logline_input =
     (let (m1, r1) = extract_step ip_pattern logline_input;
          (m2, r2) = extract_step timestamp_pattern r1;
          (m3, r3) = extract_step request_info_pattern r2;
          (m4, r4) = extract_step status_code_pattern r3;
          (m5, r5) = extract_step bytes_sent_pattern r4
      in \<lparr>ip_match = m1, timestamp_match = m2, request_info_match = m3,
          status_code_match = m4, bytes_sent_match = m5\<rparr>)"

subsection \<open>The library calls of \<^verbatim>\<open>transform_extracted_info\<close>\<close>

fun split_dots :: "string \<Rightarrow> string list" where
  \<comment> \<open>\<^verbatim>\<open>s.split('.')\<close>\<close>
  "split_dots [] = [[]]"
| "split_dots (c # cs) =
     (if c = CHR ''.'' then [] # split_dots cs
      else (case split_dots cs of [] \<Rightarrow> [[c]] | p # ps \<Rightarrow> (c # p) # ps))"

definition digit_val :: "char \<Rightarrow> int" where
  "digit_val c = int (of_char c) - 48"

definition int_of_digits :: "string \<Rightarrow> int" where
  "int_of_digits ds = foldl (\<lambda>a c. 10 * a + digit_val c) 0 ds"

definition parse_octet :: "string \<Rightarrow> bool" where
  \<comment> \<open>\<^verbatim>\<open>IPv4Address._parse_octet\<close>: whether it returns\<close>
  "parse_octet octet_str =
     (octet_str \<noteq> [] \<and> list_all is_digit octet_str \<and> length octet_str \<le> 3
      \<and> \<not> (octet_str \<noteq> ''0'' \<and> hd octet_str = CHR ''0'')
      \<and> int_of_digits octet_str \<le> 255)"

definition ip_address :: "string \<Rightarrow> bool" where
  \<comment> \<open>whether \<^verbatim>\<open>ipaddress.ip_address\<close> returns rather than raising ValueError, on a text
      without \<^verbatim>\<open>:\<close> and \<^verbatim>\<open>/\<close>, which is never an IPv6 address\<close>
  "ip_address address =
     (let octets = split_dots address in length octets = 4 \<and> list_all parse_octet octets)"

definition int_max_str_digits :: nat where
  \<comment> \<open>the default limit of CPython 3.11 and later on the digits \<^verbatim>\<open>int\<close> converts\<close>
  "int_max_str_digits = 4300"

definition py_int :: "string \<Rightarrow> exn + int" where
  \<comment> \<open>\<^verbatim>\<open>int(s)\<close> on a run of decimal digits\<close>
  "py_int ds = (if length ds > int_max_str_digits then Inl ValueError else Inr (int_of_digits ds))"

subsection \<open>\<^verbatim>\<open>transform_extracted_info\<close> and \<^verbatim>\<open>parse\<close>\<close>

text \<open>
  \<^verbatim>\<open>dateutil.parser.parse\<close> is a parameter \<open>parse_date\<close>: it returns a date-time or raises.
\<close>

type_synonym date_parser = "string \<Rightarrow> exn + datetime"

definition ip_field :: "string option \<Rightarrow> pyval" where
  "ip_field m = (case m of None \<Rightarrow> INVALID
                 | Some t \<Rightarrow> if ip_address t then PStr t else INVALID)"

definition timestamp_field :: "date_parser \<Rightarrow> string option \<Rightarrow> exn + pyval" where
  \<comment> \<open>only AttributeError is caught\<close>
  "timestamp_field parse_date m =
     (case m of None \<Rightarrow> Inr INVALID
      | Some t \<Rightarrow> (case parse_date t of
                    Inr d \<Rightarrow> Inr (PDate d)
                  | Inl e \<Rightarrow> if e = AttributeError then Inr INVALID else Inl e))"

definition method_field :: "(string \<times> string \<times> string) option \<Rightarrow> pyval" where
  "method_field m = (case m of None \<Rightarrow> INVALID
                     | Some (me, u, p) \<Rightarrow> if me \<notin> set METHODS then INVALID else PStr me)"

definition url_field :: "(string \<times> string \<times> string) option \<Rightarrow> pyval" where
  "url_field m = (case m of None \<Rightarrow> INVALID | Some (me, u, p) \<Rightarrow> PStr u)"

definition protocol_field :: "(string \<times> string \<times> string) option \<Rightarrow> pyval" where
  "protocol_field m = (case m of None \<Rightarrow> INVALID | Some (me, u, p) \<Rightarrow> PStr p)"

definition status_code_field :: "string option \<Rightarrow> pyval" where
  "status_code_field m = (case m of None \<Rightarrow> INVALID | Some t \<Rightarrow> PStr t)"

definition bytes_sent_field :: "string option \<Rightarrow> exn + pyval" where
  "bytes_sent_field m =
     (case m of None \<Rightarrow> Inr INVALID
      | Some t \<Rightarrow> (case py_int t of Inl e \<Rightarrow> Inl e | Inr n \<Rightarrow> Inr (PInt n)))"

definition transform_extracted_info ::
    "date_parser \<Rightarrow> extracted_info \<Rightarrow> exn + ParsedWebserverLogLine" where
  "transform_extracted_info parse_date e =
     (case timestamp_field parse_date (timestamp_match e) of
        Inl x \<Rightarrow> Inl x
      | Inr ts \<Rightarrow>
          (case bytes_sent_field (bytes_sent_match e) of
             Inl x \<Rightarrow> Inl x
           | Inr bs \<Rightarrow>
               Inr \<lparr>ip = ip_field (ip_match e),
                    timestamp = ts,
                    method' = method_field (request_info_match e),
                    url = url_field (request_info_match e),
                    protocol = protocol_field (request_info_match e),
                    status_code = status_code_field (status_code_match e),
                    bytes_sent = bs\<rparr>))"

definition parse :: "date_parser \<Rightarrow> string \<Rightarrow> exn + ParsedWebserverLogLine" where
  "parse parse_date logline_input = transform_extracted_info parse_date (extract_all logline_input)"

definition all_invalid :: ParsedWebserverLogLine where
  "all_invalid = \<lparr>ip = INVALID, timestamp = INVALID, method' = INVALID, url = INVALID,
                  protocol = INVALID, status_code = INVALID, bytes_sent = INVALID\<rparr>"

text \<open>The text that remains after each turn of the loop.\<close>

definition text_after_ip :: "string \<Rightarrow> string" where
  "text_after_ip s = snd (extract_step ip_pattern s)"

definition text_after_timestamp :: "string \<Rightarrow> string" where
  "text_after_timestamp s = snd (extract_step timestamp_pattern (text_after_ip s))"

definition text_after_request :: "string \<Rightarrow> string" where
  "text_after_request s = snd (extract_step request_info_pattern (text_after_timestamp s))"

definition text_after_status :: "string \<Rightarrow> string" where
  "text_after_status s = snd (extract_step status_code_pattern (text_after_request s))"

definition example_logline :: string where
  \<open>example_logline =
     ''192.168.1.1 - - [09/Mar/2024 13:55:36 +0000] "GET /index.html HTTP/1.1" 200 5432''\<close>

definition example_datetime :: datetime where
  "example_datetime = \<lparr>year = 2024, month = 3, day = 9, hour = 13, minute = 55, second = 36,
     microsecond = 0, utcoffset = Some 0\<rparr>"

definition example_date_parser :: date_parser where
  "example_date_parser t =
     (if t = ''09/Mar/2024 13:55:36 +0000'' then Inr example_datetime else Inl ParserError)"

section \<open>\<^verbatim>\<open>reward\<close> of the validator\<close>

text \<open>
  A response is a dictionary; a key that is missing reads as \<^verbatim>\<open>None\<close> through \<^verbatim>\<open>get\<close>.
  The quotient of the two counts is taken in the reals.
\<close>

type_synonym response = "string \<rightharpoonup> pyval"

definition total_valid_keys :: "string list" where
  "total_valid_keys = [''ip'', ''timestamp'', ''method'', ''url'', ''protocol'',
                       ''status_code'', ''bytes_sent'']"

fun truthy :: "pyval \<Rightarrow> bool" where
  "truthy PNone = False"
| "truthy (PStr s) = (s \<noteq> [])"
| "truthy (PInt n) = (n \<noteq> 0)"
| "truthy (PDate d) = True"

definition dict_get :: "response \<Rightarrow> string \<Rightarrow> pyval" where
  "dict_get response k = (case response k of None \<Rightarrow> PNone | Some v \<Rightarrow> v)"

definition key_count :: "response \<Rightarrow> string \<Rightarrow> nat" where
  "key_count response valid_key =
     (if truthy (dict_get response valid_key)
      then (if dict_get response valid_key \<notin> set [INVALID, PStr []] then 1 else 0)
      else 0)"

definition valid_keys :: "response \<Rightarrow> nat" where
  "valid_keys response = foldl (\<lambda>n valid_key. n + key_count response valid_key) 0 total_valid_keys"

definition reward :: "string \<Rightarrow> response \<Rightarrow> real" where
  "reward query response = real (valid_keys response) / real (length total_valid_keys)"

definition as_dict :: "ParsedWebserverLogLine \<Rightarrow> response" where
  "as_dict r = map_of [(''ip'', ip r), (''timestamp'', timestamp r), (''method'', method' r),
     (''url'', url r), (''protocol'', protocol r), (''status_code'', status_code r),
     (''bytes_sent'', bytes_sent r)]"

definition filled :: "response \<Rightarrow> string \<Rightarrow> bool" where
  "filled response k = (case response k of None \<Rightarrow> False | Some v \<Rightarrow> v \<noteq> INVALID \<and> v \<noteq> PStr [])"

definition quality_score :: "response \<Rightarrow> real" where
  "quality_score response =
     real (length (filter (filled response) total_valid_keys)) / real (length total_valid_keys)"

definition zero_bytes_response :: ParsedWebserverLogLine where
  "zero_bytes_response = \<lparr>ip = PStr ''192.168.1.2'', timestamp = PDate example_datetime,
     method' = PStr ''POST'', url = PStr ''/index.html'', protocol = PStr ''HTTP/1.1'',
     status_code = PStr ''510'', bytes_sent = PInt 0\<rparr>"

text \<open>The character before a position, given the text before it.\<close>

definition prev_char :: "char option \<Rightarrow> string \<Rightarrow> char option" where
  "prev_char prev pre = (if pre = [] then prev else Some (last pre))"

definition patch_logline :: string where
  \<open>patch_logline = ''"PATCH /x HTTP/1.1"''\<close>

definition patch_result :: ParsedWebserverLogLine where
  "patch_result = \<lparr>ip = INVALID, timestamp = INVALID, method' = INVALID, url = PStr ''/x'',
     protocol = PStr ''HTTP/1.1'', status_code = INVALID, bytes_sent = INVALID\<rparr>"

definition octet_logline :: string where
  "octet_logline = ''1.2.3.4 5678 200''"

definition octet_result :: ParsedWebserverLogLine where
  "octet_result = \<lparr>ip = PStr ''1.2.3.4'', timestamp = INVALID, method' = INVALID, url = INVALID,
     protocol = INVALID, status_code = PStr ''200'', bytes_sent = PInt 5678\<rparr>"

definition bad_ip_logline :: string where
  \<open>bad_ip_logline =
     ''999.999.999.999 - - [09/Mar/2024 13:55:36 +0000] "GET /index.html HTTP/1.1" 200 5432''\<close>

definition bad_ip_result :: ParsedWebserverLogLine where
  "bad_ip_result = \<lparr>ip = INVALID, timestamp = PDate example_datetime,
     method' = PStr ''GET'', url = PStr ''/index.html'', protocol = PStr ''HTTP/1.1'',
     status_code = PStr ''200'', bytes_sent = PInt 5432\<rparr>"

definition two_requests_logline :: string where
  \<open>two_requests_logline = ''"GET /a HTTP/1.1" "POST /b HTTP/1.0"''\<close>

definition first_request_logline :: string where
  \<open>first_request_logline = ''"GET /a HTTP/1.1"''\<close>

section \<open>Lines made of tokens and whitespace\<close>




definition timestamp_token :: "string \<Rightarrow> string" where
  "timestamp_token interior = CHR ''['' # interior @ '']''"










section \<open>Evaluation of the definitions\<close>

lemmas matcher_defs =
  search_def sub_first_def extract_step_def
  ip_pattern_def timestamp_pattern_def request_info_pattern_def status_code_pattern_def
  bytes_sent_pattern_def rep13_def rep3_def plus_def lit_def one_def orelse_def
  not_ahead_def not_behind_def capture_def
  is_digit_def is_dot_def digit_or_dot_def not_newline_def is_space_def non_space_def

lemmas field_defs =
  transform_extracted_info_def timestamp_field_def bytes_sent_field_def ip_field_def
  method_field_def url_field_def protocol_field_def status_code_field_def

section \<open>The empty line\<close>

text \<open>
  C7: \<^verbatim>\<open>parse\<close> applied to the empty string returns, with whatever date parser, the record
  whose seven fields are all \<^verbatim>\<open>INVALID\<close>; it does not raise.
\<close>

theorem parse_empty: "parse parse_date [] = Inr all_invalid"
  by (simp add: parse_def extract_all_def matcher_defs field_defs all_invalid_def)

section \<open>The stages of the loop\<close>

lemma extract_all_stages:
  "extract_all s =
     \<lparr>ip_match = fst (extract_step ip_pattern s),
      timestamp_match = fst (extract_step timestamp_pattern (text_after_ip s)),
      request_info_match = fst (extract_step request_info_pattern (text_after_timestamp s)),
      status_code_match = fst (extract_step status_code_pattern (text_after_request s)),
      bytes_sent_match = fst (extract_step bytes_sent_pattern (text_after_status s))\<rparr>"
  by (simp add: extract_all_def text_after_ip_def text_after_timestamp_def
      text_after_request_def text_after_status_def split_beta)

lemma extract_step_fst:
  "fst (extract_step pat w) = map_option (\<lambda>(pre, g, rest). g) (search pat w)"
  by (simp add: extract_step_def split: option.splits)

lemma extract_step_snd:
  "snd (extract_step pat w) = (case search pat w of None \<Rightarrow> w | Some (pre, g, rest) \<Rightarrow> pre @ rest)"
  by (simp add: extract_step_def sub_first_def split: option.splits)

section \<open>The example line of the protocol\<close>

lemma extract_all_example:
  "extract_all example_logline =
     \<lparr>ip_match = Some ''192.168.1.1'',
      timestamp_match = Some ''09/Mar/2024 13:55:36 +0000'',
      request_info_match = Some (''GET'', ''/index.html'', ''HTTP/1.1''),
      status_code_match = Some ''200'', bytes_sent_match = Some ''5432''\<rparr>"
  unfolding example_logline_def by (simp add: extract_all_def matcher_defs)

lemma ip_address_example: "ip_address ''192.168.1.1''"
  by (simp add: ip_address_def parse_octet_def int_of_digits_def digit_val_def is_digit_def)

text \<open>
  C2: on the line
  \<^verbatim>\<open>192.168.1.1 - - [09/Mar/2024 13:55:36 +0000] "GET /index.html HTTP/1.1" 200 5432\<close>,
  with a date parser that reads the bracket's text as 2024-03-09 13:55:36 at offset
  +00:00, \<^verbatim>\<open>parse\<close> returns ip \<^verbatim>\<open>"192.168.1.1"\<close>, that date-time, method \<^verbatim>\<open>"GET"\<close>,
  url \<^verbatim>\<open>"/index.html"\<close>, protocol \<^verbatim>\<open>"HTTP/1.1"\<close>, status_code the string \<^verbatim>\<open>"200"\<close>
  and bytes_sent the integer 5432.
\<close>

theorem parse_example:
  assumes "parse_date ''09/Mar/2024 13:55:36 +0000'' = Inr example_datetime"
  shows "parse parse_date example_logline =
     Inr \<lparr>ip = PStr ''192.168.1.1'', timestamp = PDate example_datetime,
          method' = PStr ''GET'', url = PStr ''/index.html'', protocol = PStr ''HTTP/1.1'',
          status_code = PStr ''200'', bytes_sent = PInt 5432\<rparr>"
  using assms
  by (simp add: parse_def extract_all_example field_defs ip_address_example METHODS_def
      py_int_def int_max_str_digits_def int_of_digits_def digit_val_def)

theorem parse_example_witness:
  "parse example_date_parser example_logline =
     Inr \<lparr>ip = PStr ''192.168.1.1'', timestamp = PDate example_datetime,
          method' = PStr ''GET'', url = PStr ''/index.html'', protocol = PStr ''HTTP/1.1'',
          status_code = PStr ''200'', bytes_sent = PInt 5432\<rparr>"
  using parse_example [of example_date_parser] by (simp add: example_date_parser_def)

section \<open>A bracket whose text is not a date\<close>

text \<open>
  C1: \<^verbatim>\<open>parse\<close> is claimed never to raise, a bracket whose text is not a date giving
  timestamp \<^verbatim>\<open>INVALID\<close>. The code catches only AttributeError around the date parser,
  while the block for the ip catches ValueError too: on the line \<^verbatim>\<open>[abc]\<close>, where the
  date parser raises ParserError, \<^verbatim>\<open>parse\<close> raises ParserError.
\<close>

theorem parse_bad_timestamp_raises:
  assumes "parse_date ''abc'' = Inl ParserError"
  shows "parse parse_date ''[abc]'' = Inl ParserError"
  using assms by (simp add: parse_def extract_all_def matcher_defs field_defs)

theorem parse_bad_timestamp_raises_witness:
  "parse example_date_parser ''[abc]'' = Inl ParserError"
  using parse_bad_timestamp_raises [of example_date_parser] by (simp add: example_date_parser_def)

section \<open>The reward\<close>

lemma key_count_le: "key_count response k \<le> 1"
  by (simp add: key_count_def)

lemma valid_keys_le: "valid_keys response \<le> 7"
proof -
  have "valid_keys response =
      key_count response ''ip'' + key_count response ''timestamp'' + key_count response ''method''
      + key_count response ''url'' + key_count response ''protocol''
      + key_count response ''status_code'' + key_count response ''bytes_sent''"
    by (simp add: valid_keys_def total_valid_keys_def)
  moreover have "key_count response ''ip'' \<le> 1" "key_count response ''timestamp'' \<le> 1"
    "key_count response ''method'' \<le> 1" "key_count response ''url'' \<le> 1"
    "key_count response ''protocol'' \<le> 1" "key_count response ''status_code'' \<le> 1"
    "key_count response ''bytes_sent'' \<le> 1"
    by (rule key_count_le)+
  ultimately show ?thesis by linarith
qed

text \<open>
  C10: for every response dictionary the reward lies in the closed interval from 0 to 1:
  the count of filled keys is at most the seven keys of the record, and not negative.
\<close>

theorem reward_in_unit_interval: "0 \<le> reward query response \<and> reward query response \<le> 1"
proof -
  have "real (valid_keys response) \<le> 7"
    using valid_keys_le [of response] by simp
  then show ?thesis
    by (simp add: reward_def total_valid_keys_def)
qed

text \<open>
  C6: the reward is claimed to be the number of filled fields over seven, a field being
  filled exactly when it is present, not \<^verbatim>\<open>INVALID\<close> and not the empty string
  (\<open>quality_score\<close>). The code first tests the value's truth, and the integer 0 is false: a
  record with every field filled and \<^verbatim>\<open>bytes_sent = 0\<close> gets 6/7, where the claim gives 1.
\<close>

theorem reward_zero_bytes:
  "reward query (as_dict zero_bytes_response) = 6 / 7
   \<and> quality_score (as_dict zero_bytes_response) = 1"
  by (simp add: reward_def valid_keys_def key_count_def dict_get_def as_dict_def
      zero_bytes_response_def total_valid_keys_def INVALID_def quality_score_def filled_def)

section \<open>What a search returns\<close>

lemma prev_char_Cons: "prev_char prev (c # pre) = prev_char (Some c) pre"
  by (simp add: prev_char_def)

lemma search_from_sound:
  "search_from pat prev s = Some (pre, g, rest) \<Longrightarrow>
   \<exists>suf. s = pre @ suf \<and> pat (prev_char prev pre) suf = Some (g, rest)"
proof (induction s arbitrary: prev pre)
  case Nil
  then show ?case by (auto simp: prev_char_def)
next
  case (Cons c cs)
  show ?case
  proof (cases "pat prev (c # cs)")
    case None
    with Cons.prems obtain pre' where p: "pre = c # pre'"
      and s: "search_from pat (Some c) cs = Some (pre', g, rest)"
      by auto
    from Cons.IH [OF s] show ?thesis
      by (auto simp: p prev_char_Cons)
  next
    case (Some m)
    with Cons.prems show ?thesis by (auto simp: prev_char_def)
  qed
qed

lemma search_from_leftmost:
  "search_from pat prev s = Some (pre, g, rest) \<Longrightarrow> i < length pre \<Longrightarrow>
   pat (prev_char prev (take i pre)) (drop i s) = None"
proof (induction s arbitrary: prev pre i)
  case Nil
  then show ?case by auto
next
  case (Cons c cs)
  show ?case
  proof (cases "pat prev (c # cs)")
    case None
    with Cons.prems obtain pre' where p: "pre = c # pre'"
      and s: "search_from pat (Some c) cs = Some (pre', g, rest)"
      by auto
    show ?thesis
    proof (cases i)
      case 0
      with None show ?thesis by (simp add: prev_char_def)
    next
      case (Suc j)
      with Cons.prems p have "j < length pre'" by simp
      from Cons.IH [OF s this] show ?thesis
        by (simp add: Suc p prev_char_Cons)
    qed
  next
    case (Some m)
    with Cons.prems show ?thesis by auto
  qed
qed


lemma capture_append: "capture (a @ b) b = a"
  by (simp add: capture_def)

lemma one_Some:
  "one P k s = Some x \<longleftrightarrow> (\<exists>c cs. s = c # cs \<and> P c \<and> k cs = Some x)"
  by (auto simp: one_def split: list.splits)

lemma lit_Some:
  "lit a k s = Some x \<longleftrightarrow> (\<exists>cs. s = a # cs \<and> k cs = Some x)"
  by (auto simp: lit_def one_Some)

lemma orelse_Some: "orelse a b = Some x \<longleftrightarrow> (a = Some x \<or> a = None \<and> b = Some x)"
  by (auto simp: orelse_def split: option.splits)

lemma star_Some:
  "star P k s = Some x \<Longrightarrow> \<exists>a b. s = a @ b \<and> list_all P a \<and> k b = Some x"
proof (induction s)
  case Nil
  then show ?case by auto
next
  case (Cons c cs)
  show ?case
  proof (cases "P c \<and> star P k cs = Some x")
    case True
    with Cons.IH obtain a b where "cs = a @ b" "list_all P a" "k b = Some x" by auto
    with True have "c # cs = (c # a) @ b \<and> list_all P (c # a) \<and> k b = Some x" by simp
    then show ?thesis by blast
  next
    case False
    with Cons.prems have "k (c # cs) = Some x"
      by (auto simp: orelse_Some split: if_splits)
    then have "c # cs = [] @ (c # cs) \<and> list_all P [] \<and> k (c # cs) = Some x" by simp
    then show ?thesis by blast
  qed
qed

lemma star_lazy_Some:
  "star_lazy P k s = Some x \<Longrightarrow> \<exists>a b. s = a @ b \<and> list_all P a \<and> k b = Some x"
proof (induction s)
  case Nil
  then show ?case by auto
next
  case (Cons c cs)
  show ?case
  proof (cases "k (c # cs) = Some x")
    case True
    then have "c # cs = [] @ (c # cs) \<and> list_all P [] \<and> k (c # cs) = Some x" by simp
    then show ?thesis by blast
  next
    case False
    with Cons.prems have "P c" "star_lazy P k cs = Some x"
      by (auto simp: orelse_Some split: if_splits)
    with Cons.IH obtain a b where "cs = a @ b" "list_all P a" "k b = Some x" by auto
    with \<open>P c\<close> have "c # cs = (c # a) @ b \<and> list_all P (c # a) \<and> k b = Some x" by simp
    then show ?thesis by blast
  qed
qed

lemma plus_Some:
  "plus P k s = Some x \<Longrightarrow> \<exists>a b. s = a @ b \<and> a \<noteq> [] \<and> list_all P a \<and> k b = Some x"
proof -
  assume "plus P k s = Some x"
  then obtain c cs where s: "s = c # cs" "P c" "star P k cs = Some x"
    by (auto simp: plus_def one_Some)
  from star_Some [OF s(3)] obtain a b where "cs = a @ b" "list_all P a" "k b = Some x" by auto
  with s have "s = (c # a) @ b \<and> c # a \<noteq> [] \<and> list_all P (c # a) \<and> k b = Some x" by simp
  then show ?thesis by blast
qed

lemma rep13_Some:
  "rep13 P k s = Some x \<Longrightarrow>
   \<exists>a b. s = a @ b \<and> a \<noteq> [] \<and> length a \<le> 3 \<and> list_all P a \<and> k b = Some x"
proof -
  assume "rep13 P k s = Some x"
  then consider
    (three) c1 c2 c3 b where "s = c1 # c2 # c3 # b" "P c1" "P c2" "P c3" "k b = Some x"
    | (two) c1 c2 b where "s = c1 # c2 # b" "P c1" "P c2" "k b = Some x"
    | (one) c1 b where "s = c1 # b" "P c1" "k b = Some x"
    by (auto simp: rep13_def one_Some orelse_Some)
  then show ?thesis
  proof cases
    case three
    then have "s = [c1, c2, c3] @ b \<and> [c1, c2, c3] \<noteq> [] \<and> length [c1, c2, c3] \<le> 3
        \<and> list_all P [c1, c2, c3] \<and> k b = Some x" by simp
    then show ?thesis by blast
  next
    case two
    then have "s = [c1, c2] @ b \<and> [c1, c2] \<noteq> [] \<and> length [c1, c2] \<le> 3
        \<and> list_all P [c1, c2] \<and> k b = Some x" by simp
    then show ?thesis by blast
  next
    case one
    then have "s = [c1] @ b \<and> [c1] \<noteq> [] \<and> length [c1] \<le> 3
        \<and> list_all P [c1] \<and> k b = Some x" by simp
    then show ?thesis by blast
  qed
qed

lemma not_ahead_Some:
  "not_ahead P k s = Some x \<longleftrightarrow> ((s = [] \<or> \<not> P (hd s)) \<and> k s = Some x)"
  by (cases s) (auto simp: not_ahead_def)

lemma status_code_pattern_Some:
  assumes "status_code_pattern prev s = Some (g, rest)"
  shows "s = g @ rest \<and> length g = 3 \<and> list_all is_digit g
         \<and> not_behind digit_or_dot prev \<and> (rest = [] \<or> \<not> digit_or_dot (hd rest))"
proof -
  from assms have nb: "not_behind digit_or_dot prev"
    and m: "rep3 is_digit (not_ahead digit_or_dot (\<lambda>r. Some (capture s r, r))) s = Some (g, rest)"
    by (auto simp: status_code_pattern_def split: if_splits)
  from m obtain c1 c2 c3 r where s: "s = [c1, c2, c3] @ r" "is_digit c1" "is_digit c2" "is_digit c3"
    and k: "not_ahead digit_or_dot (\<lambda>r. Some (capture s r, r)) r = Some (g, rest)"
    by (auto simp: rep3_def one_Some)
  from k have "r = [] \<or> \<not> digit_or_dot (hd r)" and "capture s r = g" and "r = rest"
    by (auto simp: not_ahead_Some)
  with s nb show ?thesis
    by (auto simp: capture_def)
qed

lemma bytes_sent_pattern_Some:
  assumes "bytes_sent_pattern prev s = Some (g, rest)"
  shows "s = g @ rest \<and> g \<noteq> [] \<and> list_all is_digit g"
proof -
  from assms have "plus is_digit (\<lambda>r. Some (capture s r, r)) s = Some (g, rest)"
    by (simp add: bytes_sent_pattern_def)
  from plus_Some [OF this] show ?thesis
    by (auto simp: capture_append)
qed

subsection \<open>What a match of each pattern looks like\<close>

lemma timestamp_pattern_Some:
  assumes "timestamp_pattern prev s = Some (g, rest)"
  shows "s = CHR ''['' # g @ CHR '']'' # rest \<and> list_all not_newline g"
proof -
  from assms obtain s1 where s: "s = CHR ''['' # s1"
    and m: "star_lazy not_newline (\<lambda>s2. lit CHR '']'' (\<lambda>r. Some (capture s1 s2, r)) s2) s1
            = Some (g, rest)"
    by (auto simp: timestamp_pattern_def lit_Some)
  from star_lazy_Some [OF m] obtain a b where ab: "s1 = a @ b" "list_all not_newline a"
    and k: "lit CHR '']'' (\<lambda>r. Some (capture s1 b, r)) b = Some (g, rest)"
    by auto
  from k have "b = CHR '']'' # rest" "capture s1 b = g"
    by (auto simp: lit_Some)
  with s ab show ?thesis
    by (auto simp: capture_append)
qed

lemma ip_pattern_Some:
  assumes "ip_pattern prev s = Some (g, rest)"
  shows "s = g @ rest \<and> g \<noteq> [] \<and> list_all digit_or_dot g"
proof -
  let ?k = "\<lambda>r. Some (capture s r, r)"
  from assms
  have "rep13 is_digit (lit CHR ''.'' (rep13 is_digit (lit CHR ''.''
       (rep13 is_digit (lit CHR ''.'' (rep13 is_digit ?k)))))) s = Some (g, rest)"
    by (simp add: ip_pattern_def)
  from rep13_Some [OF this] obtain a1 b1 where 1: "s = a1 @ b1" "a1 \<noteq> []" "list_all is_digit a1"
    and "lit CHR ''.'' (rep13 is_digit (lit CHR ''.''
       (rep13 is_digit (lit CHR ''.'' (rep13 is_digit ?k))))) b1 = Some (g, rest)"
    by blast
  then obtain c1 where c1: "b1 = CHR ''.'' # c1"
    and "rep13 is_digit (lit CHR ''.'' (rep13 is_digit (lit CHR ''.'' (rep13 is_digit ?k)))) c1
         = Some (g, rest)"
    by (auto simp: lit_Some)
  from rep13_Some [OF this(2)] obtain a2 b2 where 2: "c1 = a2 @ b2" "list_all is_digit a2"
    and "lit CHR ''.'' (rep13 is_digit (lit CHR ''.'' (rep13 is_digit ?k))) b2 = Some (g, rest)"
    by blast
  then obtain c2 where c2: "b2 = CHR ''.'' # c2"
    and "rep13 is_digit (lit CHR ''.'' (rep13 is_digit ?k)) c2 = Some (g, rest)"
    by (auto simp: lit_Some)
  from rep13_Some [OF this(2)] obtain a3 b3 where 3: "c2 = a3 @ b3" "list_all is_digit a3"
    and "lit CHR ''.'' (rep13 is_digit ?k) b3 = Some (g, rest)"
    by blast
  then obtain c3 where c3: "b3 = CHR ''.'' # c3"
    and "rep13 is_digit ?k c3 = Some (g, rest)"
    by (auto simp: lit_Some)
  from rep13_Some [OF this(2)] obtain a4 b4 where 4: "c3 = a4 @ b4" "list_all is_digit a4"
    and k: "?k b4 = Some (g, rest)"
    by blast
  have s: "s = (a1 @ CHR ''.'' # a2 @ CHR ''.'' # a3 @ CHR ''.'' # a4) @ b4"
    by (simp add: 1 2 3 4 c1 c2 c3)
  from k have "rest = b4" "g = capture s b4" by auto
  then have g: "g = a1 @ CHR ''.'' # a2 @ CHR ''.'' # a3 @ CHR ''.'' # a4"
    by (simp only: s capture_append)
  have d: "\<And>xs. list_all is_digit xs \<Longrightarrow> list_all digit_or_dot xs"
    by (simp add: list_all_iff digit_or_dot_def)
  show ?thesis
    using s g \<open>rest = b4\<close> 1 2 3 4 d by (simp add: digit_or_dot_def is_dot_def)
qed

lemma lits_Some:
  "lits as k s = Some x \<longleftrightarrow> (\<exists>r. s = as @ r \<and> k r = Some x)"
  by (induction as arbitrary: s) (auto simp: lit_Some)

lemma request_info_pattern_Some:
  assumes "request_info_pattern prev s = Some ((me, u, p), rest)"
  shows "s = CHR 0x22 # me @ CHR '' '' # u @ CHR '' '' # p @ CHR 0x22 # rest
         \<and> list_all not_newline me
         \<and> (\<exists>path. u = CHR ''/'' # path \<and> path \<noteq> [] \<and> list_all non_space path)
         \<and> (\<exists>d1 d2. p = ''HTTP/'' @ [d1, CHR ''.'', d2] \<and> is_digit d1 \<and> is_digit d2)"
proof -
  from assms obtain s1 where s: "s = CHR 0x22 # s1"
    and m: "star not_newline
       (\<lambda>s2. lit CHR '' '' (\<lambda>s3. lit CHR ''/'' (plus non_space
         (\<lambda>s4. lit CHR '' '' (\<lambda>s5. lits ''HTTP/'' (one is_digit (lit CHR ''.'' (one is_digit
           (\<lambda>s6. lit (CHR 0x22)
              (\<lambda>r. Some ((capture s1 s2, capture s3 s4, capture s5 s6), r)) s6)))) s5) s4)) s3) s2) s1
        = Some ((me, u, p), rest)"
    by (auto simp: request_info_pattern_def lit_Some)
  from star_Some [OF m] obtain a s2 where a: "s1 = a @ s2" "list_all not_newline a"
    and "lit CHR '' '' (\<lambda>s3. lit CHR ''/'' (plus non_space
         (\<lambda>s4. lit CHR '' '' (\<lambda>s5. lits ''HTTP/'' (one is_digit (lit CHR ''.'' (one is_digit
           (\<lambda>s6. lit (CHR 0x22)
              (\<lambda>r. Some ((capture s1 s2, capture s3 s4, capture s5 s6), r)) s6)))) s5) s4)) s3) s2
        = Some ((me, u, p), rest)"
    by blast
  then obtain s3 t where s3: "s2 = CHR '' '' # s3" "s3 = CHR ''/'' # t"
    and "plus non_space
         (\<lambda>s4. lit CHR '' '' (\<lambda>s5. lits ''HTTP/'' (one is_digit (lit CHR ''.'' (one is_digit
           (\<lambda>s6. lit (CHR 0x22)
              (\<lambda>r. Some ((capture s1 s2, capture s3 s4, capture s5 s6), r)) s6)))) s5) s4) t
        = Some ((me, u, p), rest)"
    by (auto simp: lit_Some)
  from plus_Some [OF this(3)] obtain path s4 where path: "t = path @ s4" "path \<noteq> []"
      "list_all non_space path"
    and "lit CHR '' '' (\<lambda>s5. lits ''HTTP/'' (one is_digit (lit CHR ''.'' (one is_digit
           (\<lambda>s6. lit (CHR 0x22)
              (\<lambda>r. Some ((capture s1 s2, capture s3 s4, capture s5 s6), r)) s6)))) s5) s4
        = Some ((me, u, p), rest)"
    by blast
  then obtain s5 d1 d2 s6 where s5: "s4 = CHR '' '' # s5" "s5 = ''HTTP/'' @ d1 # CHR ''.'' # d2 # s6"
      "is_digit d1" "is_digit d2"
    and "lit (CHR 0x22) (\<lambda>r. Some ((capture s1 s2, capture s3 s4, capture s5 s6), r)) s6
        = Some ((me, u, p), rest)"
    by (auto simp: lit_Some lits_Some one_Some)
  then have e: "s6 = CHR 0x22 # rest" "me = capture s1 s2" "u = capture s3 s4" "p = capture s5 s6"
    by (auto simp: lit_Some)
  have "me = a" using e(2) a(1) by (simp add: capture_append)
  moreover have "u = CHR ''/'' # path"
  proof -
    have "s3 = (CHR ''/'' # path) @ s4" by (simp add: s3 path)
    then show ?thesis using e(3) by (simp only: capture_append)
  qed
  moreover have "p = ''HTTP/'' @ [d1, CHR ''.'', d2]"
  proof -
    have "s5 = (''HTTP/'' @ [d1, CHR ''.'', d2]) @ s6" by (simp add: s5)
    then show ?thesis using e(4) by (simp only: capture_append)
  qed
  ultimately show ?thesis
    using s a s3 path s5 e(1) by simp
qed

section \<open>From the matches to the fields\<close>

lemma parse_fields:
  assumes "parse parse_date s = Inr r"
  shows "ip r = ip_field (ip_match (extract_all s))"
    and "method' r = method_field (request_info_match (extract_all s))"
    and "url r = url_field (request_info_match (extract_all s))"
    and "protocol r = protocol_field (request_info_match (extract_all s))"
    and "status_code r = status_code_field (status_code_match (extract_all s))"
  using assms
  by (auto simp: parse_def transform_extracted_info_def split: sum.splits)

lemma search_Some_extract_step:
  "search pat w = Some (pre, g, rest) \<Longrightarrow> extract_step pat w = (Some g, pre @ rest)"
  by (simp add: extract_step_def sub_first_def)

lemma search_None_extract_step:
  "search pat w = None \<Longrightarrow> extract_step pat w = (None, w)"
  by (simp add: extract_step_def)

text \<open>
  C3: method, url and protocol are invalidated as a unit. When \<^verbatim>\<open>parse\<close> returns a record:
  if the request pattern matches nowhere in the working text of its stage, the three
  fields are \<^verbatim>\<open>INVALID\<close>; if it matches and the captured method is not one of GET, POST,
  PUT, DELETE, method is \<^verbatim>\<open>INVALID\<close> while url and protocol hold the captured text.
\<close>

theorem request_fields_as_unit:
  assumes "parse parse_date s = Inr r"
  shows "(search request_info_pattern (text_after_timestamp s) = None \<longrightarrow>
            method' r = INVALID \<and> url r = INVALID \<and> protocol r = INVALID)
       \<and> (\<forall>pre me u p rest.
            search request_info_pattern (text_after_timestamp s) = Some (pre, (me, u, p), rest)
            \<and> me \<notin> set METHODS \<longrightarrow>
            method' r = INVALID \<and> url r = PStr u \<and> protocol r = PStr p)"
  using parse_fields(2-4) [OF assms]
  by (auto simp: extract_all_stages search_Some_extract_step search_None_extract_step
      method_field_def url_field_def protocol_field_def)

lemma parse_patch: "parse example_date_parser patch_logline = Inr patch_result"
  unfolding patch_logline_def
  by (simp add: parse_def extract_all_def matcher_defs field_defs patch_result_def METHODS_def)

lemma search_patch:
  "search request_info_pattern (text_after_timestamp patch_logline)
   = Some ([], (''PATCH'', ''/x'', ''HTTP/1.1''), [])"
  unfolding patch_logline_def
  by (simp add: text_after_timestamp_def text_after_ip_def matcher_defs)

lemma search_empty:
  "search request_info_pattern (text_after_timestamp []) = None"
  by (simp add: text_after_timestamp_def text_after_ip_def matcher_defs)

theorem request_fields_as_unit_witness:
  "(parse example_date_parser [] = Inr all_invalid
    \<and> search request_info_pattern (text_after_timestamp []) = None
    \<and> method' all_invalid = INVALID \<and> url all_invalid = INVALID \<and> protocol all_invalid = INVALID)
   \<and> (parse example_date_parser patch_logline = Inr patch_result
    \<and> search request_info_pattern (text_after_timestamp patch_logline)
        = Some ([], (''PATCH'', ''/x'', ''HTTP/1.1''), [])
    \<and> ''PATCH'' \<notin> set METHODS
    \<and> method' patch_result = INVALID \<and> url patch_result = PStr ''/x''
    \<and> protocol patch_result = PStr ''HTTP/1.1'')"
proof -
  have e: "parse example_date_parser [] = Inr all_invalid"
    by (simp add: parse_def extract_all_def matcher_defs field_defs all_invalid_def)
  have m: "''PATCH'' \<notin> set METHODS" by (simp add: METHODS_def)
  from request_fields_as_unit [OF e] search_empty
  have 1: "method' all_invalid = INVALID \<and> url all_invalid = INVALID \<and> protocol all_invalid = INVALID"
    by blast
  from request_fields_as_unit [OF parse_patch] search_patch m
  have 2: "method' patch_result = INVALID \<and> url patch_result = PStr ''/x''
    \<and> protocol patch_result = PStr ''HTTP/1.1''"
    by blast
  from e search_empty 1 parse_patch search_patch m 2 show ?thesis by blast
qed

section \<open>The status code\<close>

text \<open>
  C5: when \<^verbatim>\<open>parse\<close> returns a record whose status_code is not \<^verbatim>\<open>INVALID\<close>, the
  status_code is a run of three decimal digits of the working text of the status-code
  stage, with no decimal digit and no \<^verbatim>\<open>.\<close> immediately before it and none immediately
  after it: digits inside an IP octet or inside a longer run are never captured.
\<close>

theorem status_code_isolated:
  assumes "parse parse_date s = Inr r" and "status_code r \<noteq> INVALID"
  shows "\<exists>pre g rest. text_after_request s = pre @ g @ rest \<and> status_code r = PStr g
           \<and> length g = 3 \<and> list_all is_digit g
           \<and> (pre = [] \<or> \<not> digit_or_dot (last pre))
           \<and> (rest = [] \<or> \<not> digit_or_dot (hd rest))"
proof -
  let ?w = "text_after_request s"
  have f: "status_code r = status_code_field (fst (extract_step status_code_pattern ?w))"
    using parse_fields(5) [OF assms(1)] by (simp add: extract_all_stages)
  with assms(2) obtain pre g rest where m: "search status_code_pattern ?w = Some (pre, g, rest)"
    by (cases "search status_code_pattern ?w")
       (auto simp: search_None_extract_step status_code_field_def)
  then have c: "status_code r = PStr g"
    using f by (simp add: search_Some_extract_step status_code_field_def)
  from m obtain suf where w: "?w = pre @ suf"
    and p: "status_code_pattern (prev_char None pre) suf = Some (g, rest)"
    using search_from_sound [of status_code_pattern None ?w pre g rest]
    by (auto simp: search_def)
  from status_code_pattern_Some [OF p]
  have "suf = g @ rest" "length g = 3" "list_all is_digit g"
    "not_behind digit_or_dot (prev_char None pre)" "rest = [] \<or> \<not> digit_or_dot (hd rest)"
    by auto
  moreover from this(4) have "pre = [] \<or> \<not> digit_or_dot (last pre)"
    by (auto simp: not_behind_def prev_char_def split: if_splits)
  ultimately show ?thesis
    using w c by blast
qed

lemma parse_octet_line: "parse example_date_parser octet_logline = Inr octet_result"
  unfolding octet_logline_def
  by (simp add: parse_def extract_all_def matcher_defs field_defs octet_result_def
      ip_address_def parse_octet_def py_int_def int_max_str_digits_def int_of_digits_def
      digit_val_def)

theorem status_code_isolated_witness:
  "parse example_date_parser octet_logline = Inr octet_result
   \<and> status_code octet_result \<noteq> INVALID
   \<and> (\<exists>pre g rest. text_after_request octet_logline = pre @ g @ rest
         \<and> status_code octet_result = PStr g
         \<and> length g = 3 \<and> list_all is_digit g
         \<and> (pre = [] \<or> \<not> digit_or_dot (last pre))
         \<and> (rest = [] \<or> \<not> digit_or_dot (hd rest)))"
proof -
  have n: "status_code octet_result \<noteq> INVALID"
    by (simp add: octet_result_def INVALID_def)
  from status_code_isolated [OF parse_octet_line n] parse_octet_line n
  show ?thesis by blast
qed

section \<open>More than one occurrence of a token class\<close>

text \<open>
  C8: with two quoted request triples on a line, only the first one is to be used and
  the second never inspected. The method group of the request pattern is the greedy
  \<^verbatim>\<open>.*\<close>, where the timestamp pattern has the lazy \<^verbatim>\<open>.*?\<close>, so the match runs from the
  first quote to the end of the last triple: on \<^verbatim>\<open>"GET /a HTTP/1.1" "POST /b HTTP/1.0"\<close>
  url and protocol are those of the second triple and method is \<^verbatim>\<open>INVALID\<close>, while the
  first triple alone gives GET, /a, HTTP/1.1.
\<close>

theorem two_requests_use_second:
  "parse example_date_parser two_requests_logline =
     Inr \<lparr>ip = INVALID, timestamp = INVALID, method' = INVALID, url = PStr ''/b'',
          protocol = PStr ''HTTP/1.0'', status_code = INVALID, bytes_sent = INVALID\<rparr>
   \<and> parse example_date_parser first_request_logline =
     Inr \<lparr>ip = INVALID, timestamp = INVALID, method' = PStr ''GET'', url = PStr ''/a'',
          protocol = PStr ''HTTP/1.1'', status_code = INVALID, bytes_sent = INVALID\<rparr>"
  unfolding two_requests_logline_def first_request_logline_def
  by (simp add: parse_def extract_all_def matcher_defs field_defs METHODS_def INVALID_def)

section \<open>The working text shrinks\<close>

text \<open>
  C9: when a pattern matches at its stage, the matched span is cut out of the working
  text before any later pattern is tried, whether or not the field is then found valid;
  every later pattern is searched in the text that remains, so no character of the span
  is captured by a later stage. The line of the witness starts with 999.999.999.999: its
  ip is \<^verbatim>\<open>INVALID\<close>, and status_code and bytes_sent are 200 and 5432.
\<close>

theorem matched_span_removed:
  "(\<forall>pre g rest. search ip_pattern s = Some (pre, g, rest) \<longrightarrow>
      s = pre @ g @ rest \<and> g \<noteq> [] \<and> text_after_ip s = pre @ rest)
   \<and> (\<forall>pre g rest. search timestamp_pattern (text_after_ip s) = Some (pre, g, rest) \<longrightarrow>
      text_after_ip s = pre @ ''['' @ g @ '']'' @ rest \<and> text_after_timestamp s = pre @ rest)
   \<and> (\<forall>pre me u p rest.
        search request_info_pattern (text_after_timestamp s) = Some (pre, (me, u, p), rest) \<longrightarrow>
      text_after_timestamp s = pre @ [CHR 0x22] @ me @ '' '' @ u @ '' '' @ p @ [CHR 0x22] @ rest
      \<and> text_after_request s = pre @ rest)
   \<and> (\<forall>pre g rest. search status_code_pattern (text_after_request s) = Some (pre, g, rest) \<longrightarrow>
      text_after_request s = pre @ g @ rest \<and> g \<noteq> [] \<and> text_after_status s = pre @ rest)
   \<and> extract_all s =
       \<lparr>ip_match = map_option (fst \<circ> snd) (search ip_pattern s),
        timestamp_match = map_option (fst \<circ> snd) (search timestamp_pattern (text_after_ip s)),
        request_info_match =
          map_option (fst \<circ> snd) (search request_info_pattern (text_after_timestamp s)),
        status_code_match =
          map_option (fst \<circ> snd) (search status_code_pattern (text_after_request s)),
        bytes_sent_match =
          map_option (fst \<circ> snd) (search bytes_sent_pattern (text_after_status s))\<rparr>"
proof (intro conjI allI impI)
  fix pre g rest
  assume m: "search ip_pattern s = Some (pre, g, rest)"
  from search_from_sound [of ip_pattern None s pre g rest] m
  obtain suf where "s = pre @ suf" "ip_pattern (prev_char None pre) suf = Some (g, rest)"
    by (auto simp: search_def)
  with ip_pattern_Some [of "prev_char None pre" suf g rest]
  show "s = pre @ g @ rest" "g \<noteq> []" by auto
  from m show "text_after_ip s = pre @ rest"
    by (simp add: text_after_ip_def search_Some_extract_step)
next
  fix pre g rest
  assume m: "search timestamp_pattern (text_after_ip s) = Some (pre, g, rest)"
  from search_from_sound [of timestamp_pattern None "text_after_ip s" pre g rest] m
  obtain suf where "text_after_ip s = pre @ suf"
    "timestamp_pattern (prev_char None pre) suf = Some (g, rest)"
    by (auto simp: search_def)
  with timestamp_pattern_Some [of "prev_char None pre" suf g rest]
  show "text_after_ip s = pre @ ''['' @ g @ '']'' @ rest" by auto
  from m show "text_after_timestamp s = pre @ rest"
    by (simp add: text_after_timestamp_def search_Some_extract_step)
next
  fix pre me u p rest
  assume m: "search request_info_pattern (text_after_timestamp s) = Some (pre, (me, u, p), rest)"
  from search_from_sound [of request_info_pattern None "text_after_timestamp s" pre "(me, u, p)" rest] m
  obtain suf where "text_after_timestamp s = pre @ suf"
    "request_info_pattern (prev_char None pre) suf = Some ((me, u, p), rest)"
    by (auto simp: search_def)
  with request_info_pattern_Some [of "prev_char None pre" suf me u p rest]
  show "text_after_timestamp s =
      pre @ [CHR 0x22] @ me @ '' '' @ u @ '' '' @ p @ [CHR 0x22] @ rest" by auto
  from m show "text_after_request s = pre @ rest"
    by (simp add: text_after_request_def search_Some_extract_step)
next
  fix pre g rest
  assume m: "search status_code_pattern (text_after_request s) = Some (pre, g, rest)"
  from search_from_sound [of status_code_pattern None "text_after_request s" pre g rest] m
  obtain suf where "text_after_request s = pre @ suf"
    "status_code_pattern (prev_char None pre) suf = Some (g, rest)"
    by (auto simp: search_def)
  with status_code_pattern_Some [of "prev_char None pre" suf g rest]
  show "text_after_request s = pre @ g @ rest" "g \<noteq> []" by auto
  from m show "text_after_status s = pre @ rest"
    by (simp add: text_after_status_def search_Some_extract_step)
next
  have f: "\<And>pat w. fst (extract_step pat w) = map_option (fst \<circ> snd) (search pat w)"
    by (auto simp: extract_step_def split: option.splits)
  show "extract_all s =
       \<lparr>ip_match = map_option (fst \<circ> snd) (search ip_pattern s),
        timestamp_match = map_option (fst \<circ> snd) (search timestamp_pattern (text_after_ip s)),
        request_info_match =
          map_option (fst \<circ> snd) (search request_info_pattern (text_after_timestamp s)),
        status_code_match =
          map_option (fst \<circ> snd) (search status_code_pattern (text_after_request s)),
        bytes_sent_match =
          map_option (fst \<circ> snd) (search bytes_sent_pattern (text_after_status s))\<rparr>"
    by (simp add: extract_all_stages f)
qed


lemma not_ip_address_999: "\<not> ip_address ''999.999.999.999''"
  by (simp add: ip_address_def parse_octet_def int_of_digits_def digit_val_def is_digit_def)

lemma parse_bad_ip: "parse example_date_parser bad_ip_logline = Inr bad_ip_result"
  unfolding bad_ip_logline_def
  by (simp add: parse_def extract_all_def matcher_defs field_defs bad_ip_result_def
      not_ip_address_999 example_date_parser_def METHODS_def
      py_int_def int_max_str_digits_def int_of_digits_def digit_val_def)

theorem matched_span_removed_witness:
  \<open>search ip_pattern bad_ip_logline
     = Some ([], ''999.999.999.999'',
             '' - - [09/Mar/2024 13:55:36 +0000] "GET /index.html HTTP/1.1" 200 5432'')
   \<and> \<not> ip_address ''999.999.999.999''
   \<and> text_after_ip bad_ip_logline
     = '' - - [09/Mar/2024 13:55:36 +0000] "GET /index.html HTTP/1.1" 200 5432''
   \<and> search timestamp_pattern (text_after_ip bad_ip_logline)
     = Some ('' - - '', ''09/Mar/2024 13:55:36 +0000'', '' "GET /index.html HTTP/1.1" 200 5432'')
   \<and> text_after_timestamp bad_ip_logline = '' - -  "GET /index.html HTTP/1.1" 200 5432''
   \<and> search request_info_pattern (text_after_timestamp bad_ip_logline)
     = Some ('' - -  '', (''GET'', ''/index.html'', ''HTTP/1.1''), '' 200 5432'')
   \<and> text_after_request bad_ip_logline = '' - -   200 5432''
   \<and> search status_code_pattern (text_after_request bad_ip_logline)
     = Some ('' - -   '', ''200'', '' 5432'')
   \<and> text_after_status bad_ip_logline = '' - -    5432''
   \<and> parse example_date_parser bad_ip_logline = Inr bad_ip_result
   \<and> ip bad_ip_result = INVALID \<and> status_code bad_ip_result = PStr ''200''
   \<and> bytes_sent bad_ip_result = PInt 5432\<close>
proof -
  note T = matched_span_removed [of bad_ip_logline]
  have s1: \<open>search ip_pattern bad_ip_logline
     = Some ([], ''999.999.999.999'',
             '' - - [09/Mar/2024 13:55:36 +0000] "GET /index.html HTTP/1.1" 200 5432'')\<close>
    unfolding bad_ip_logline_def by (simp add: matcher_defs)
  from T [THEN conjunct1, rule_format, OF s1]
  have t1: \<open>text_after_ip bad_ip_logline
     = '' - - [09/Mar/2024 13:55:36 +0000] "GET /index.html HTTP/1.1" 200 5432''\<close>
    by simp
  have s2: \<open>search timestamp_pattern (text_after_ip bad_ip_logline)
     = Some ('' - - '', ''09/Mar/2024 13:55:36 +0000'', '' "GET /index.html HTTP/1.1" 200 5432'')\<close>
    unfolding t1 by (simp add: matcher_defs)
  from T [THEN conjunct2, THEN conjunct1, rule_format, OF s2]
  have t2: \<open>text_after_timestamp bad_ip_logline = '' - -  "GET /index.html HTTP/1.1" 200 5432''\<close>
    by simp
  have s3: \<open>search request_info_pattern (text_after_timestamp bad_ip_logline)
     = Some ('' - -  '', (''GET'', ''/index.html'', ''HTTP/1.1''), '' 200 5432'')\<close>
    unfolding t2 by (simp add: matcher_defs)
  from T [THEN conjunct2, THEN conjunct2, THEN conjunct1, rule_format, OF s3]
  have t3: "text_after_request bad_ip_logline = '' - -   200 5432''"
    by simp
  have s4: "search status_code_pattern (text_after_request bad_ip_logline)
     = Some ('' - -   '', ''200'', '' 5432'')"
    unfolding t3 by (simp add: matcher_defs)
  from T [THEN conjunct2, THEN conjunct2, THEN conjunct2, THEN conjunct1, rule_format, OF s4]
  have t4: "text_after_status bad_ip_logline = '' - -    5432''"
    by simp
  have r: "ip bad_ip_result = INVALID \<and> status_code bad_ip_result = PStr ''200''
    \<and> bytes_sent bad_ip_result = PInt 5432"
    by (simp add: bad_ip_result_def)
  from s1 not_ip_address_999 t1 s2 t2 s3 t3 s4 t4 parse_bad_ip r show ?thesis
    by (intro conjI) simp_all
qed

section \<open>The order of the tokens\<close>



lemma one_fails: "r = [] \<or> \<not> P (hd r) \<Longrightarrow> one P k r = None"
  by (cases r) (auto simp: one_def)




lemma lit_step: "lit c k (c # r) = k r"
  by (simp add: lit_def one_def)




lemma search_from_hit: "pat prev s = Some m \<Longrightarrow> search_from pat prev s = Some ([], m)"
  by (cases s) simp_all

lemma search_from_skip:
  assumes "\<forall>i<length x. pat (prev_char prev (take i x)) (drop i x @ r) = None"
  shows "search_from pat prev (x @ r) =
     map_option (\<lambda>(pre, m). (x @ pre, m)) (search_from pat (prev_char prev x) r)"
  using assms
proof (induction x arbitrary: prev)
  case Nil
  show ?case by (simp add: prev_char_def option.map_ident split_def)
next
  case (Cons c x)
  from Cons.prems have 0: "pat prev (c # x @ r) = None"
    by (auto simp: prev_char_def dest: spec [of _ 0])
  have "\<forall>i<length x. pat (prev_char (Some c) (take i x)) (drop i x @ r) = None"
  proof (intro allI impI)
    fix i assume "i < length x"
    with Cons.prems have "pat (prev_char prev (take (Suc i) (c # x))) (drop (Suc i) (c # x) @ r) = None"
      by (auto simp del: take_Suc_Cons drop_Suc_Cons)
    then show "pat (prev_char (Some c) (take i x)) (drop i x @ r) = None"
      by (simp add: prev_char_Cons)
  qed
  from Cons.IH [OF this] 0 show ?case
    by (simp add: prev_char_Cons option.map_comp comp_def split_def)
qed











lemma star_lazy_hit:
  assumes "list_all P x" and "k y = Some v" and "\<forall>i<length x. k (drop i x @ y) = None"
  shows "star_lazy P k (x @ y) = Some v"
  using assms(1,3)
proof (induction x)
  case Nil
  with assms(2) show ?case by (cases y) (simp_all add: orelse_def)
next
  case (Cons c x)
  from Cons.prems(2) have 0: "k (c # x @ y) = None"
    by (auto dest: spec [of _ 0])
  have "\<forall>i<length x. k (drop i x @ y) = None"
  proof (intro allI impI)
    fix i assume "i < length x"
    with Cons.prems(2) have "k (drop (Suc i) (c # x) @ y) = None"
      by (auto simp del: drop_Suc_Cons)
    then show "k (drop i x @ y) = None" by simp
  qed
  with Cons.IH Cons.prems(1) have "star_lazy P k (x @ y) = Some v" by simp
  with 0 Cons.prems(1) show ?case by (simp add: orelse_def)
qed

lemma timestamp_pattern_hit:
  assumes "list_all (\<lambda>c. c \<noteq> CHR '']'' \<and> not_newline c) interior"
  shows "timestamp_pattern prev (CHR ''['' # interior @ CHR '']'' # r) = Some (interior, r)"
proof -
  let ?s1 = "interior @ CHR '']'' # r"
  let ?k = "\<lambda>s2. lit CHR '']'' (\<lambda>r. Some (capture ?s1 s2, r)) s2"
  have P: "list_all not_newline interior"
    using assms by (simp add: list_all_iff)
  have k: "?k (CHR '']'' # r) = Some (interior, r)"
    by (simp add: lit_step capture_append)
  have f: "\<forall>i<length interior. ?k (drop i interior @ CHR '']'' # r) = None"
  proof (intro allI impI)
    fix i assume i: "i < length interior"
    then have "drop i interior = interior ! i # drop (Suc i) interior"
      by (simp add: Cons_nth_drop_Suc)
    moreover from assms i have "interior ! i \<noteq> CHR '']''"
      by (simp add: list_all_length)
    ultimately show "?k (drop i interior @ CHR '']'' # r) = None"
      by (simp add: lit_def one_def)
  qed
  from star_lazy_hit [of not_newline interior ?k "CHR '']'' # r", OF P k f]
  show ?thesis
    by (simp add: timestamp_pattern_def lit_step)
qed



























section \<open>The first bracket pair\<close>

text \<open>
  The timestamp pattern, whose group is lazy, keeps the first bracket pair of a text
  whatever follows it, further bracket pairs included. The request pattern, whose first
  group is greedy, does not do the same with the first quoted triple.
\<close>

lemma first_bracket_pair_is_used:
  assumes "CHR ''['' \<notin> set pre" and "list_all (\<lambda>c. c \<noteq> CHR '']'' \<and> not_newline c) interior"
  shows "search timestamp_pattern (pre @ timestamp_token interior @ rest)
         = Some (pre, interior, rest)"
proof -
  let ?s = "timestamp_token interior @ rest"
  have "\<forall>i<length pre. timestamp_pattern (prev_char None (take i pre)) (drop i pre @ ?s) = None"
  proof (intro allI impI)
    fix i assume i: "i < length pre"
    then have "drop i pre = pre ! i # drop (Suc i) pre" by (simp add: Cons_nth_drop_Suc)
    moreover from assms(1) i have "pre ! i \<noteq> CHR ''[''" by (metis nth_mem)
    ultimately show "timestamp_pattern (prev_char None (take i pre)) (drop i pre @ ?s) = None"
      by (simp add: timestamp_pattern_def lit_def one_def)
  qed
  from search_from_skip [OF this]
  have "search timestamp_pattern (pre @ ?s) =
      map_option (\<lambda>(p, m). (pre @ p, m)) (search_from timestamp_pattern (prev_char None pre) ?s)"
    by (simp add: search_def)
  moreover have "timestamp_pattern (prev_char None pre) ?s = Some (interior, rest)"
    using timestamp_pattern_hit [OF assms(2)] by (simp add: timestamp_token_def)
  ultimately show ?thesis
    by (simp add: search_from_hit)
qed

end
